theory Spec2Isabelle
  imports Complex_Main "HOL-Library.Log_Nat"
begin

section \<open>The Go string functions the parsers call\<close>

text \<open>
  A Go string is a sequence of bytes, and so is \<open>string\<close> (a list of 8-bit \<open>char\<close>).
  The source calls \<open>strings.Split\<close> and \<open>strings.Trim\<close> with one-byte arguments only, so
  the separator and the cutset are a \<open>char\<close> here. \<open>Split\<close> never returns the empty
  list: \<open>strings.Split("", sep)\<close> is the one-element slice holding the empty string.
  \<open>split_from cur sep s\<close> scans \<open>s\<close> with \<open>cur\<close> the piece being read (reversed).
\<close>

fun split_from :: "string \<Rightarrow> char \<Rightarrow> string \<Rightarrow> string list" where
  "split_from cur sep [] = [rev cur]"
| "split_from cur sep (c # cs) =
     (if c = sep then rev cur # split_from [] sep cs else split_from (c # cur) sep cs)"

definition Split :: "string \<Rightarrow> char \<Rightarrow> string list" where
  "Split s sep = split_from [] sep s"

definition HasPrefix :: "string \<Rightarrow> string \<Rightarrow> bool" where
  "HasPrefix s pre = (take (length pre) s = pre)"

definition TrimPrefix :: "string \<Rightarrow> string \<Rightarrow> string" where
  "TrimPrefix s pre = (if HasPrefix s pre then drop (length pre) s else s)"

definition Trim :: "string \<Rightarrow> char \<Rightarrow> string" where
  "Trim s c = dropWhile (\<lambda>x. x = c) (rev (dropWhile (\<lambda>x. x = c) (rev s)))"

text \<open>
  \<open>strings.Fields\<close> splits around runs of white space as \<open>unicode.IsSpace\<close> defines it,
  on the UTF-8 decoding of the bytes. \<open>space_width s\<close> is the number of bytes of the
  white-space rune that \<open>s\<close> starts with, and 0 when it starts with none: the six ASCII
  spaces, U+0085 and U+00A0 (two bytes), U+1680, U+2000 to U+200A, U+2028, U+2029,
  U+202F, U+205F and U+3000 (three bytes). The first byte of each of these encodings is
  never a continuation byte, so scanning byte by byte finds the same runes as decoding.
\<close>

fun space_width :: "string \<Rightarrow> nat" where
  "space_width [] = 0"
| "space_width (c # cs) =
     (if c \<in> {CHR 0x09, CHR 0x0A, CHR 0x0B, CHR 0x0C, CHR 0x0D, CHR 0x20} then 1
      else if c = CHR 0xC2 \<and> take 1 cs \<in> {[CHR 0x85], [CHR 0xA0]} then 2
      else if c = CHR 0xE1 \<and> take 2 cs = [CHR 0x9A, CHR 0x80] then 3
      else if c = CHR 0xE2 \<and> take 1 cs = [CHR 0x80] \<and>
              take 1 (drop 1 cs) \<in> {[CHR 0x80], [CHR 0x81], [CHR 0x82], [CHR 0x83],
                [CHR 0x84], [CHR 0x85], [CHR 0x86], [CHR 0x87], [CHR 0x88], [CHR 0x89],
                [CHR 0x8A], [CHR 0xA8], [CHR 0xA9], [CHR 0xAF]} then 3
      else if c = CHR 0xE2 \<and> take 2 cs = [CHR 0x81, CHR 0x9F] then 3
      else if c = CHR 0xE3 \<and> take 2 cs = [CHR 0x80, CHR 0x80] then 3
      else 0)"

text \<open>
  \<open>fields_from cur skip s\<close>: \<open>cur\<close> is the field being read (reversed), \<open>skip\<close> the
  bytes of the current white-space rune still to pass over.
\<close>

fun fields_from :: "string \<Rightarrow> nat \<Rightarrow> string \<Rightarrow> string list" where
  "fields_from cur skip [] = (if cur = [] then [] else [rev cur])"
| "fields_from cur skip (c # cs) =
     (if 0 < skip then fields_from cur (skip - 1) cs
      else if 0 < space_width (c # cs)
        then (if cur = [] then [] else [rev cur]) @ fields_from [] (space_width (c # cs) - 1) cs
      else fields_from (c # cur) 0 cs)"

definition Fields :: "string \<Rightarrow> string list" where
  "Fields s = fields_from [] 0 s"

section \<open>float64\<close>

text \<open>
  A \<open>float64\<close> is an IEEE 754 binary64 value: a NaN, an infinity, the negative zero, or
  a finite number, held as the rational it denotes (\<open>Fin 0\<close> is the positive zero).
  Every operation rounds its exact result to the nearest binary64, ties to even, as Go's
  arithmetic does.
\<close>

datatype float64 = NaN | PInf | NInf | NegZero | Fin rat

definition pow2 :: "int \<Rightarrow> rat" where
  "pow2 k = (if 0 \<le> k then 2 ^ nat k else 1 / 2 ^ nat (- k))"

definition pow10 :: "int \<Rightarrow> rat" where
  "pow10 k = (if 0 \<le> k then 10 ^ nat k else 1 / 10 ^ nat (- k))"

text \<open>\<open>ilog2 a\<close> is the integer \<open>e\<close> with \<open>2^e \<le> a < 2^(e+1)\<close>, for a positive \<open>a\<close>.\<close>

definition ilog2 :: "rat \<Rightarrow> int" where
  "ilog2 a =
     (let k = bitlen (fst (quotient_of a)) - bitlen (snd (quotient_of a))
      in if pow2 k \<le> a then k else k - 1)"

definition round_half_even :: "rat \<Rightarrow> int" where
  "round_half_even q =
     (let f = \<lfloor>q\<rfloor>; d = q - of_int f
      in if d < 1 / 2 then f
         else if 1 / 2 < d then f + 1
         else if even f then f else f + 1)"

text \<open>
  \<open>round64 q\<close>: the binary64 nearest to \<open>q\<close>. The spacing of the binary64 numbers around
  \<open>|q|\<close> is \<open>2^(e - 52)\<close> with \<open>e\<close> the exponent of \<open>|q|\<close>, at least \<open>-1022\<close> (the
  subnormal range); a result of magnitude \<open>2^1024\<close> or more overflows to an infinity,
  and a nonzero \<open>q\<close> rounded to zero keeps its sign.
\<close>

definition round64 :: "rat \<Rightarrow> float64" where
  "round64 q =
     (if q = 0 then Fin 0
      else
        let a = \<bar>q\<bar>;
            u = pow2 (max (ilog2 a) (- 1022) - 52);
            r = of_int (round_half_even (a / u)) * u
        in if 2 ^ 1024 \<le> r then (if q < 0 then NInf else PInf)
           else if r = 0 then (if q < 0 then NegZero else Fin 0)
           else Fin (if q < 0 then - r else r))"

fun is_zero :: "float64 \<Rightarrow> bool" where
  "is_zero NegZero = True"
| "is_zero (Fin a) = (a = 0)"
| "is_zero _ = False"

fun is_inf :: "float64 \<Rightarrow> bool" where
  "is_inf PInf = True"
| "is_inf NInf = True"
| "is_inf _ = False"

fun is_finite :: "float64 \<Rightarrow> bool" where
  "is_finite NegZero = True"
| "is_finite (Fin a) = True"
| "is_finite _ = False"

fun signbit :: "float64 \<Rightarrow> bool" where
  "signbit NInf = True"
| "signbit NegZero = True"
| "signbit (Fin a) = (a < 0)"
| "signbit _ = False"

fun fval :: "float64 \<Rightarrow> rat" where
  "fval (Fin a) = a"
| "fval _ = 0"

fun fneg :: "float64 \<Rightarrow> float64" where
  "fneg NaN = NaN"
| "fneg PInf = NInf"
| "fneg NInf = PInf"
| "fneg NegZero = Fin 0"
| "fneg (Fin a) = (if a = 0 then NegZero else Fin (- a))"

text \<open>
  Addition: a NaN operand or infinities of opposite signs give NaN; an infinity absorbs a
  finite operand; an exact sum of zero is the positive zero unless both operands are the
  negative zero.
\<close>

definition fadd :: "float64 \<Rightarrow> float64 \<Rightarrow> float64" where
  "fadd x y =
     (if x = NaN \<or> y = NaN then NaN
      else if is_inf x then (if is_inf y \<and> x \<noteq> y then NaN else x)
      else if is_inf y then y
      else if fval x + fval y = 0
        then (if x = NegZero \<and> y = NegZero then NegZero else Fin 0)
      else round64 (fval x + fval y))"

definition fsub :: "float64 \<Rightarrow> float64 \<Rightarrow> float64" where
  "fsub x y = fadd x (fneg y)"

text \<open>
  Division never panics on float64: \<open>0/0\<close> and \<open>inf/inf\<close> are NaN, a nonzero number over
  zero is an infinity, and the sign of a zero or infinite quotient is the exclusive or
  of the operands' signs.
\<close>

definition fdiv :: "float64 \<Rightarrow> float64 \<Rightarrow> float64" where
  "fdiv x y =
     (if x = NaN \<or> y = NaN then NaN
      else if is_inf x then
        (if is_inf y then NaN else if signbit x \<noteq> signbit y then NInf else PInf)
      else if is_inf y then (if signbit x \<noteq> signbit y then NegZero else Fin 0)
      else if is_zero y then
        (if is_zero x then NaN else if signbit x \<noteq> signbit y then NInf else PInf)
      else if is_zero x then (if signbit x \<noteq> signbit y then NegZero else Fin 0)
      else round64 (fval x / fval y))"

text \<open>The comparison \<open>x <= y\<close> of Go: false when an operand is NaN; the zeros are equal.\<close>

definition fle :: "float64 \<Rightarrow> float64 \<Rightarrow> bool" where
  "fle x y =
     (if x = NaN \<or> y = NaN then False
      else if x = NInf \<or> y = PInf then True
      else if x = PInf \<or> y = NInf then False
      else fval x \<le> fval y)"

definition flt :: "float64 \<Rightarrow> float64 \<Rightarrow> bool" where
  "flt x y =
     (if x = NaN \<or> y = NaN then False
      else if x = PInf \<or> y = NInf then False
      else if x = NInf \<or> y = PInf then True
      else fval x < fval y)"

section \<open>strconv.ParseFloat\<close>

text \<open>
  The parsers read every count with \<open>strconv.ParseFloat(s, 64)\<close> and drop the error it
  returns. The model follows the steps of the library function: the special values
  first, then the sign, an optional \<open>0x\<close> prefix, the mantissa digits with at most one
  point, the exponent, and the check of the underscores. A text that is not a number
  gives the value 0 with \<open>ErrSyntax\<close>; a number too large gives an infinity with
  \<open>ErrRange\<close>. The library converts correctly rounded, so the value of a well-formed
  text is \<open>round64\<close> of the number it reads. The grammar is the one of Go 1.13 and
  later, which added the hexadecimal form and the underscores.
\<close>

datatype NumError = ErrSyntax | ErrRange

definition is_digit :: "char \<Rightarrow> bool" where
  "is_digit c = (48 \<le> (of_char c :: nat) \<and> (of_char c :: nat) \<le> 57)"

definition digit_val :: "char \<Rightarrow> nat" where
  "digit_val c = of_char c - 48"

text \<open>\<open>lower\<close> is the library's \<open>c | ('x' - 'X')\<close>: it sets bit 5 of the byte.\<close>

definition lower :: "char \<Rightarrow> char" where
  "lower c = (case c of Char b0 b1 b2 b3 b4 b5 b6 b7 \<Rightarrow> Char b0 b1 b2 b3 b4 True b6 b7)"

definition is_hex_letter :: "char \<Rightarrow> bool" where
  "is_hex_letter c = (97 \<le> (of_char (lower c) :: nat) \<and> (of_char (lower c) :: nat) \<le> 102)"

definition hex_letter_val :: "char \<Rightarrow> nat" where
  "hex_letter_val c = of_char (lower c) - 97 + 10"

definition ascii_lower :: "char \<Rightarrow> char" where
  "ascii_lower c =
     (if 65 \<le> (of_char c :: nat) \<and> (of_char c :: nat) \<le> 90
      then char_of ((of_char c :: nat) + 32) else c)"

fun commonPrefixLenIgnoreCase :: "string \<Rightarrow> string \<Rightarrow> nat" where
  "commonPrefixLenIgnoreCase (c # s) (p # pre) =
     (if ascii_lower c = p then Suc (commonPrefixLenIgnoreCase s pre) else 0)"
| "commonPrefixLenIgnoreCase _ _ = 0"

text \<open>
  \<open>special s\<close>: an optionally signed \<open>inf\<close> or \<open>infinity\<close>, or an unsigned \<open>nan\<close>, in any
  case, at the start of \<open>s\<close>, with the number of bytes it takes.
\<close>

definition special :: "string \<Rightarrow> (float64 \<times> nat) option" where
  "special s =
     (case s of
        [] \<Rightarrow> None
      | c # cs \<Rightarrow>
          if c = CHR ''+'' \<or> c = CHR ''-'' \<or> c = CHR ''i'' \<or> c = CHR ''I'' then
            (let nsign = (if c = CHR ''+'' \<or> c = CHR ''-'' then 1 else 0 :: nat);
                 n = commonPrefixLenIgnoreCase (if nsign = 1 then cs else s) ''infinity'';
                 n' = (if 3 < n \<and> n < 8 then 3 else n)
             in if n' = 3 \<or> n' = 8
                then Some (if c = CHR ''-'' then NInf else PInf, nsign + n')
                else None)
          else if c = CHR ''n'' \<or> c = CHR ''N'' then
            (if commonPrefixLenIgnoreCase s ''nan'' = 3 then Some (NaN, 3) else None)
          else None)"

text \<open>
  The state of the mantissa loop of \<open>readFloat\<close>: \<open>nd\<close> counts the digits after the
  leading zeros, \<open>dp\<close> is the position of the point, \<open>mantissa\<close> the digits read. The
  library keeps 19 decimal (16 hexadecimal) digits and a flag for a nonzero rest, which
  its conversion takes into account; the model keeps every digit.
\<close>

record mantissa_state =
  sawdot :: bool
  sawdigits :: bool
  nd :: nat
  dp :: int
  mantissa :: nat
  underscores :: bool

fun read_mantissa :: "bool \<Rightarrow> mantissa_state \<Rightarrow> string \<Rightarrow> mantissa_state \<times> string" where
  "read_mantissa hex st [] = (st, [])"
| "read_mantissa hex st (c # cs) =
     (if c = CHR ''_'' then read_mantissa hex (st\<lparr>underscores := True\<rparr>) cs
      else if c = CHR ''.'' then
        (if sawdot st then (st, c # cs)
         else read_mantissa hex (st\<lparr>sawdot := True, dp := int (nd st)\<rparr>) cs)
      else if is_digit c then
        (if c = CHR ''0'' \<and> nd st = 0
         then read_mantissa hex (st\<lparr>sawdigits := True, dp := dp st - 1\<rparr>) cs
         else read_mantissa hex
                (st\<lparr>sawdigits := True, nd := nd st + 1,
                    mantissa := mantissa st * (if hex then 16 else 10) + digit_val c\<rparr>) cs)
      else if hex \<and> is_hex_letter c then
        read_mantissa hex
          (st\<lparr>sawdigits := True, nd := nd st + 1,
              mantissa := mantissa st * 16 + hex_letter_val c\<rparr>) cs
      else (st, c # cs))"

text \<open>The exponent digits: the library stops adding digits once \<open>e\<close> has reached 10000.\<close>

fun read_exponent :: "nat \<Rightarrow> bool \<Rightarrow> string \<Rightarrow> nat \<times> bool \<times> string" where
  "read_exponent e us [] = (e, us, [])"
| "read_exponent e us (c # cs) =
     (if c = CHR ''_'' then read_exponent e True cs
      else if is_digit c
        then read_exponent (if e < 10000 then e * 10 + digit_val c else e) us cs
      else (e, us, c # cs))"

text \<open>
  \<open>underscoreOK\<close>: an underscore is allowed only between digits, or between a base
  prefix and a digit. \<open>saw\<close> is the kind of the last byte: \<open>^\<close> at the start, \<open>0\<close> a
  digit or the prefix, \<open>_\<close> an underscore, \<open>!\<close> anything else.
\<close>

fun underscore_scan :: "bool \<Rightarrow> char \<Rightarrow> string \<Rightarrow> bool" where
  "underscore_scan hex saw [] = (saw \<noteq> CHR ''_'')"
| "underscore_scan hex saw (c # cs) =
     (if is_digit c \<or> hex \<and> is_hex_letter c then underscore_scan hex (CHR ''0'') cs
      else if c = CHR ''_'' then
        (if saw \<noteq> CHR ''0'' then False else underscore_scan hex (CHR ''_'') cs)
      else if saw = CHR ''_'' then False
      else underscore_scan hex (CHR ''!'') cs)"

definition underscoreOK :: "string \<Rightarrow> bool" where
  "underscoreOK s =
     (let s1 = (if take 1 s = ''-'' \<or> take 1 s = ''+'' then drop 1 s else s);
          pre = (2 \<le> length s1 \<and> s1 ! 0 = CHR ''0'' \<and>
                 lower (s1 ! 1) \<in> {CHR ''b'', CHR ''o'', CHR ''x''});
          hex = (pre \<and> lower (s1 ! 1) = CHR ''x'')
      in underscore_scan hex (if pre then CHR ''0'' else CHR ''^'')
           (if pre then drop 2 s1 else s1))"

text \<open>
  \<open>readFloat s\<close> is \<open>None\<close> where the library's \<open>readFloat\<close> reports \<open>ok = false\<close>, and
  otherwise the sign, the base, the mantissa, the exponent of the base (10, or 2 for a
  hexadecimal text) and the text left unread.
\<close>

definition readFloat :: "string \<Rightarrow> (bool \<times> bool \<times> nat \<times> int \<times> string) option" where
  "readFloat s =
     (if s = [] then None
      else
        let neg = (hd s = CHR ''-'');
            s1 = (if hd s = CHR ''+'' \<or> hd s = CHR ''-'' then tl s else s);
            hex = (2 < length s1 \<and> s1 ! 0 = CHR ''0'' \<and> lower (s1 ! 1) = CHR ''x'');
            (st, s3) = read_mantissa hex
               \<lparr>sawdot = False, sawdigits = False, nd = 0, dp = 0, mantissa = 0,
                underscores = False\<rparr>
               (if hex then drop 2 s1 else s1);
            dp1 = (if sawdot st then dp st else int (nd st));
            dp2 = (if hex then dp1 * 4 else dp1);
            ndMant = (if hex then int (nd st) * 4 else int (nd st))
        in if \<not> sawdigits st then None
           else if s3 \<noteq> [] \<and> lower (hd s3) = (if hex then CHR ''p'' else CHR ''e'') then
             (let s4 = tl s3;
                  esign = (if take 1 s4 = ''-'' then - 1 else 1 :: int);
                  s5 = (if take 1 s4 = ''+'' \<or> take 1 s4 = ''-'' then tl s4 else s4);
                  (e, us, s6) = read_exponent 0 (underscores st) s5
              in if s4 = [] then None
                 else if s5 = [] \<or> \<not> is_digit (hd s5) then None
                 else if us \<and> \<not> underscoreOK (take (length s - length s6) s) then None
                 else Some (neg, hex, mantissa st, dp2 + int e * esign - ndMant, s6))
           else if hex then None
           else if underscores st \<and> \<not> underscoreOK (take (length s - length s3) s) then None
           else Some (neg, hex, mantissa st, dp2 - ndMant, s3))"

definition atof_value :: "bool \<Rightarrow> bool \<Rightarrow> nat \<Rightarrow> int \<Rightarrow> float64" where
  "atof_value neg hex m ex =
     (if m = 0 then (if neg then NegZero else Fin 0)
      else round64 ((if neg then - 1 else 1) * of_nat m * (if hex then pow2 ex else pow10 ex)))"

definition ParseFloat :: "string \<Rightarrow> float64 \<times> NumError option" where
  "ParseFloat s =
     (case special s of
        Some (v, n) \<Rightarrow> if n \<noteq> length s then (Fin 0, Some ErrSyntax) else (v, None)
      | None \<Rightarrow>
          (case readFloat s of
             None \<Rightarrow> (Fin 0, Some ErrSyntax)
           | Some (neg, hex, m, ex, rest) \<Rightarrow>
               if rest \<noteq> [] then (Fin 0, Some ErrSyntax)
               else (atof_value neg hex m ex,
                     if is_inf (atof_value neg hex m ex) then Some ErrRange else None)))"

section \<open>The parsers of gpus.go\<close>

text \<open>
  A Go \<open>map[string]float64\<close> is a partial map; reading a missing key gives the zero
  value \<open>0\<close>, so \<open>gpu_map[k] += c\<close> stores \<open>lookup gpu_map k + c\<close>.
\<close>

type_synonym gpu_map = "string \<rightharpoonup> float64"

definition lookup :: "gpu_map \<Rightarrow> string \<Rightarrow> float64" where
  "lookup m k = (case m k of None \<Rightarrow> Fin 0 | Some v \<Rightarrow> v)"

text \<open>
  \<open>for _, x := range xs { body }\<close> over a slice, with a body that may panic: \<open>None\<close> is
  the panic, which ends the loop and the function.
\<close>

fun range_loop :: "('s \<Rightarrow> 'a \<Rightarrow> 's option) \<Rightarrow> 's \<Rightarrow> 'a list \<Rightarrow> 's option" where
  "range_loop body st [] = Some st"
| "range_loop body st (x # xs) =
     (case body st x of None \<Rightarrow> None | Some st' \<Rightarrow> range_loop body st' xs)"

text \<open>
  Lines 60 to 67: one resource of a line of \<open>squeue\<close>. \<open>values[1]\<close> panics when the
  descriptor has no \<open>=\<close>; \<open>values[0]\<close> always exists.
\<close>

definition alloc_resource :: "gpu_map \<Rightarrow> string \<Rightarrow> gpu_map option" where
  "alloc_resource gpu_map resource =
     (if HasPrefix resource ''gres/gpu:'' then
        (let descriptor = TrimPrefix resource ''gres/gpu:'';
             vals = Split descriptor (CHR ''='');
             gpu_type = vals ! 0
         in if length vals \<le> 1 then None
            else
              let count = fst (ParseFloat (vals ! 1))
              in Some (gpu_map(gpu_type \<mapsto> fadd (lookup gpu_map gpu_type) count)))
      else Some gpu_map)"

text \<open>Lines 53 to 68: one line of the output of \<open>squeue\<close>.\<close>

definition alloc_line :: "gpu_map \<Rightarrow> string \<Rightarrow> gpu_map option" where
  "alloc_line gpu_map line =
     (if length line = 0 then Some gpu_map
      else range_loop alloc_resource gpu_map (Split (Trim line (CHR 0x22)) (CHR '','')))"

text \<open>
  \<open>ParseAllocatedGPUs\<close>, as a function of the output of the \<open>squeue\<close> command that the
  source runs first.
\<close>

definition ParseAllocatedGPUs :: "string \<Rightarrow> gpu_map option" where
  "ParseAllocatedGPUs output =
     (if length output = 0 then Some Map.empty
      else range_loop alloc_line Map.empty (Split output (CHR 0x0A)))"

text \<open>
  Lines 93 to 101: one resource of the gres column of a node. The index 2 panics when
  the resource has fewer than three segments; a resource with the prefix \<open>gpu:\<close> has at
  least two, and \<open>Split\<close> always returns a first element.
\<close>

definition total_resource :: "gpu_map \<Rightarrow> string \<Rightarrow> gpu_map option" where
  "total_resource gpu_map resource =
     (if HasPrefix resource ''gpu:'' then
        (if length (Split resource (CHR '':'')) \<le> 2 then None
         else
           let descriptor = Split resource (CHR '':'') ! 2;
               descriptor' = Split descriptor (CHR ''('') ! 0;
               node_gpus = fst (ParseFloat descriptor');
               type_gpu = Split resource (CHR '':'') ! 1
           in Some (gpu_map(type_gpu \<mapsto> fadd (lookup gpu_map type_gpu) node_gpus)))
      else Some gpu_map)"

text \<open>
  Lines 85 to 102: one line of the output of \<open>sinfo\<close>. \<open>strings.Fields(line)[1]\<close> panics
  when the line has fewer than two fields.
\<close>

definition total_line :: "gpu_map \<Rightarrow> string \<Rightarrow> gpu_map option" where
  "total_line gpu_map line =
     (if length line = 0 then Some gpu_map
      else if length (Fields (Trim line (CHR 0x22))) \<le> 1 then None
      else
        let gres = Fields (Trim line (CHR 0x22)) ! 1
        in range_loop total_resource gpu_map (Split gres (CHR '','')))"

definition ParseTotalGPUs :: "string \<Rightarrow> gpu_map option" where
  "ParseTotalGPUs output =
     (if length output = 0 then Some Map.empty
      else range_loop total_line Map.empty (Split output (CHR 0x0A)))"

record GPUsMetrics =
  alloc :: float64
  idle :: float64
  total :: float64
  utilization :: float64

text \<open>Lines 129 to 134: the body of the loop over the keys of \<open>totals\<close>.\<close>

definition metrics_entry ::
  "gpu_map \<Rightarrow> gpu_map \<Rightarrow> (string \<rightharpoonup> GPUsMetrics) \<Rightarrow> string \<Rightarrow> (string \<rightharpoonup> GPUsMetrics)" where
  "metrics_entry totals allocs types gpu_type =
     (let types1 = types(gpu_type \<mapsto> \<lparr>alloc = Fin 0, idle = Fin 0, total = Fin 0, utilization = Fin 0\<rparr>);
          types2 = types1(gpu_type \<mapsto> (the (types1 gpu_type))\<lparr>alloc := lookup allocs gpu_type\<rparr>);
          types3 = types2(gpu_type \<mapsto> (the (types2 gpu_type))\<lparr>total := lookup totals gpu_type\<rparr>);
          types4 = types3(gpu_type \<mapsto> (the (types3 gpu_type))
                     \<lparr>idle := fsub (lookup totals gpu_type) (lookup allocs gpu_type)\<rparr>)
      in types4(gpu_type \<mapsto> (the (types4 gpu_type))
                     \<lparr>utilization := fdiv (lookup allocs gpu_type) (lookup totals gpu_type)\<rparr>))"

text \<open>
  \<open>for gpu_type := range totals\<close> visits the keys of the map in an order that Go leaves
  open: \<open>keys\<close> is that order, any list of the keys of \<open>totals\<close>.
\<close>

definition metrics_loop ::
  "gpu_map \<Rightarrow> gpu_map \<Rightarrow> string list \<Rightarrow> (string \<rightharpoonup> GPUsMetrics)" where
  "metrics_loop totals allocs keys = foldl (metrics_entry totals allocs) Map.empty keys"

text \<open>
  \<open>ParseGPUsMetrics\<close>, as a function of the outputs of \<open>sinfo\<close> and \<open>squeue\<close> and of the
  order \<open>keys\<close> of the iteration. A panic of either parser is a panic of the function.
\<close>

definition ParseGPUsMetrics ::
  "string list \<Rightarrow> string \<Rightarrow> string \<Rightarrow> (string \<rightharpoonup> GPUsMetrics) option" where
  "ParseGPUsMetrics keys sinfo_output squeue_output =
     (case ParseTotalGPUs sinfo_output of
        None \<Rightarrow> None
      | Some totals \<Rightarrow>
          (case ParseAllocatedGPUs squeue_output of
             None \<Rightarrow> None
           | Some allocs \<Rightarrow> Some (metrics_loop totals allocs keys)))"

section \<open>The inventory, as the specification words it\<close>

text \<open>
  The specification describes the inventory map by the contributions of the nodes: a
  resource \<open>gpu:<type>:<count>(<suffix>)\<close> of the second field of a line contributes
  its count to its type, and a type accumulates the contributions of all nodes.
  \<open>gpu_contribution gpu_type resource\<close> is the list (empty or of one element) of what a
  resource contributes to \<open>gpu_type\<close>, \<open>node_contributions\<close> what a line contributes,
  and \<open>inventory_contributions\<close> what the whole text contributes, in the order of the
  text. \<open>accumulate v cs\<close> is the entry of a type after the counts \<open>cs\<close> have been added
  one by one to the entry \<open>v\<close>.
\<close>

definition gpu_contribution :: "string \<Rightarrow> string \<Rightarrow> float64 list" where
  "gpu_contribution gpu_type resource =
     (if HasPrefix resource ''gpu:'' \<and> 2 < length (Split resource (CHR '':'')) \<and>
         Split resource (CHR '':'') ! 1 = gpu_type
      then [fst (ParseFloat (Split (Split resource (CHR '':'') ! 2) (CHR ''('') ! 0))]
      else [])"

definition node_contributions :: "string \<Rightarrow> string \<Rightarrow> float64 list" where
  "node_contributions gpu_type line =
     (if line = [] \<or> length (Fields (Trim line (CHR 0x22))) \<le> 1 then []
      else concat (map (gpu_contribution gpu_type)
             (Split (Fields (Trim line (CHR 0x22)) ! 1) (CHR '',''))))"

definition inventory_contributions :: "string \<Rightarrow> string \<Rightarrow> float64 list" where
  "inventory_contributions gpu_type output =
     concat (map (node_contributions gpu_type) (Split output (CHR 0x0A)))"

definition accumulate :: "float64 option \<Rightarrow> float64 list \<Rightarrow> float64 option" where
  "accumulate v cs =
     foldl (\<lambda>v c. Some (fadd (case v of None \<Rightarrow> Fin 0 | Some x \<Rightarrow> x) c)) v cs"

section \<open>Facts about the float64 model\<close>

lemma pow2_powi: "pow2 k = 2 powi k"
  by (simp add: pow2_def power_int_def field_simps)

lemma pow2_pos: "0 < pow2 k"
  by (simp add: pow2_powi zero_less_power_int)

lemma pow2_add: "pow2 (j + k) = pow2 j * pow2 k"
  by (simp add: pow2_powi power_int_add)

lemma pow2_diff: "pow2 (j - k) = pow2 j / pow2 k"
  by (simp add: pow2_powi power_int_diff)

lemma pow2_mono: "j \<le> k \<Longrightarrow> pow2 j \<le> pow2 k"
  by (simp add: pow2_powi power_int_increasing)

lemma pow2_less_imp: "pow2 j < pow2 k \<Longrightarrow> j < k"
  using pow2_mono [of k j] by (cases "j < k") auto

lemma pow2_nat: "0 \<le> k \<Longrightarrow> pow2 k = 2 ^ nat k"
  by (simp add: pow2_def)

lemma quotient_bounds:
  assumes "0 < a"
  defines "n \<equiv> fst (quotient_of a)" and "d \<equiv> snd (quotient_of a)"
  shows "pow2 (bitlen n - bitlen d - 1) \<le> a" and "a < pow2 (bitlen n - bitlen d + 1)"
proof -
  have q: "quotient_of a = (n, d)" by (simp add: n_def d_def)
  have d: "0 < d" using q by (rule quotient_of_denom_pos)
  have a: "a = of_int n / of_int d" using q by (rule quotient_of_div)
  have n: "0 < n" using assms(1) d a by (simp add: zero_less_divide_iff)
  have bn: "2 ^ nat (bitlen n - 1) \<le> n" "n < 2 ^ nat (bitlen n)"
    using bitlen_bounds [OF n] by auto
  have bd: "2 ^ nat (bitlen d - 1) \<le> d" "d < 2 ^ nat (bitlen d)"
    using bitlen_bounds [OF d] by auto
  have pn: "1 \<le> bitlen n" using n bitlen_eq_zero_iff [of n] bitlen_nonneg [of n] by linarith
  have pd: "1 \<le> bitlen d" using d bitlen_eq_zero_iff [of d] bitlen_nonneg [of d] by linarith
  have "(of_int (2 ^ nat (bitlen n - 1)) :: rat) \<le> of_int n"
    using bn(1) by (simp only: of_int_le_iff)
  then have rn1: "pow2 (bitlen n - 1) \<le> of_int n" using pn by (simp add: pow2_nat)
  have "(of_int n :: rat) < of_int (2 ^ nat (bitlen n))"
    using bn(2) by (simp only: of_int_less_iff)
  then have rn2: "of_int n < pow2 (bitlen n)" using pn by (simp add: pow2_nat)
  have "(of_int (2 ^ nat (bitlen d - 1)) :: rat) \<le> of_int d"
    using bd(1) by (simp only: of_int_le_iff)
  then have rd1: "pow2 (bitlen d - 1) \<le> of_int d" using pd by (simp add: pow2_nat)
  have "(of_int d :: rat) < of_int (2 ^ nat (bitlen d))"
    using bd(2) by (simp only: of_int_less_iff)
  then have rd2: "of_int d < pow2 (bitlen d)" using pd by (simp add: pow2_nat)
  have dpos: "(0::rat) < of_int d" using d by simp
  have "pow2 (bitlen n - bitlen d - 1) = pow2 (bitlen n - 1) / pow2 (bitlen d)"
    using pow2_diff [of "bitlen n - 1" "bitlen d"] by (simp add: algebra_simps)
  also have "\<dots> \<le> of_int n / pow2 (bitlen d)"
    using rn1 pow2_pos [of "bitlen d"] by (simp add: divide_right_mono)
  also have "\<dots> \<le> of_int n / of_int d"
    using rd2 dpos n by (simp add: frac_le)
  finally show "pow2 (bitlen n - bitlen d - 1) \<le> a" by (simp add: a)
  have "a = of_int n / of_int d" by (rule a)
  also have "\<dots> < pow2 (bitlen n) / of_int d"
    using rn2 dpos by (simp add: divide_strict_right_mono)
  also have "\<dots> \<le> pow2 (bitlen n) / pow2 (bitlen d - 1)"
    using rd1 pow2_pos [of "bitlen d - 1"] pow2_pos [of "bitlen n"] by (simp add: frac_le)
  also have "\<dots> = pow2 (bitlen n - bitlen d + 1)"
    using pow2_diff [of "bitlen n" "bitlen d - 1"] by (simp add: algebra_simps)
  finally show "a < pow2 (bitlen n - bitlen d + 1)" .
qed

lemma ilog2_lower: "0 < a \<Longrightarrow> pow2 (ilog2 a) \<le> a"
  using quotient_bounds(1) [of a] by (simp add: ilog2_def Let_def)

lemma ilog2_upper: "0 < a \<Longrightarrow> a < pow2 (ilog2 a + 1)"
  using quotient_bounds(2) [of a] by (auto simp add: ilog2_def Let_def)

lemma ilog2_unique:
  assumes "pow2 e \<le> a" "a < pow2 (e + 1)"
  shows "ilog2 a = e"
proof -
  have a: "0 < a" using assms(1) pow2_pos [of e] by linarith
  have "pow2 (ilog2 a) < pow2 (e + 1)" using ilog2_lower [OF a] assms(2) by linarith
  then have 1: "ilog2 a < e + 1" by (rule pow2_less_imp)
  have "pow2 e < pow2 (ilog2 a + 1)" using ilog2_upper [OF a] assms(1) by linarith
  then have 2: "e < ilog2 a + 1" by (rule pow2_less_imp)
  from 1 2 show ?thesis by linarith
qed


lemma round_half_even_of_int: "round_half_even (of_int i) = i"
  by (simp add: round_half_even_def)

lemma round64_exact:
  assumes m: "m \<noteq> 0" "\<bar>m\<bar> < 2 ^ 53" and k: "- 1074 \<le> k" "k \<le> 971"
  shows "round64 (of_int m * pow2 k) = Fin (of_int m * pow2 k)"
proof -
  define q where "q = (of_int m :: rat) * pow2 k"
  define a where "a = \<bar>q\<bar>"
  define e where "e = max (ilog2 a) (- 1022)"
  define u where "u = pow2 (e - 52)"
  have q0: "q \<noteq> 0" using m(1) pow2_pos [of k] by (simp add: q_def)
  have a: "a = of_int \<bar>m\<bar> * pow2 k"
    using pow2_pos [of k] by (simp add: a_def q_def abs_mult)
  have a0: "0 < a" using q0 by (simp add: a_def)
  have "(of_int \<bar>m\<bar> :: rat) < of_int (2 ^ 53)" using m(2) by (simp only: of_int_less_iff)
  then have "(of_int \<bar>m\<bar> :: rat) < pow2 53" by (simp add: pow2_def)
  then have "a < pow2 53 * pow2 k" using pow2_pos [of k] by (simp add: a)
  then have ub: "a < pow2 (53 + k)" by (simp add: pow2_add)
  have "pow2 (ilog2 a) < pow2 (53 + k)" using ilog2_lower [OF a0] ub by linarith
  then have "ilog2 a < 53 + k" by (rule pow2_less_imp)
  then have ek: "e - 52 \<le> k" using k(1) by (simp add: e_def)
  define j where "j = nat (k - (e - 52))"
  have "pow2 k = pow2 (int j + (e - 52))" using ek by (simp add: j_def)
  then have pk: "pow2 k = 2 ^ j * u" by (simp add: pow2_add pow2_nat u_def)
  have u0: "0 < u" by (simp add: u_def pow2_pos)
  have "a / u = of_int (\<bar>m\<bar> * 2 ^ j)" using u0 by (simp add: a pk)
  then have "round_half_even (a / u) = \<bar>m\<bar> * 2 ^ j" by (simp only: round_half_even_of_int)
  then have r: "of_int (round_half_even (a / u)) * u = a" by (simp add: a pk)
  have "pow2 (53 + k) \<le> pow2 1024" using k(2) by (intro pow2_mono) simp
  then have "a < pow2 1024" using ub by linarith
  then have nov: "\<not> 2 ^ 1024 \<le> a" by (simp add: pow2_def)
  have "round64 q = Fin (if q < 0 then - a else a)"
    using q0 a0 nov r
    unfolding round64_def Let_def a_def [symmetric] e_def [symmetric] u_def [symmetric]
    by simp
  also have "(if q < 0 then - a else a) = q" by (simp add: a_def)
  finally show ?thesis by (simp add: q_def)
qed


text \<open>
  A number \<open>m * 2^k\<close> with \<open>|m| < 2^53\<close> and \<open>-1074 \<le> k \<le> 971\<close> is a binary64 number,
  and \<open>round64\<close> leaves it as it is (lemma \<open>round64_exact\<close> above). The small numbers of
  the samples are of this form.
\<close>

lemma round64_2: "round64 2 = Fin 2"
  using round64_exact [of 2 0] by (simp add: pow2_def)

lemma round64_4: "round64 4 = Fin 4"
  using round64_exact [of 4 0] by (simp add: pow2_def)

lemma round64_half: "round64 (1 / 2) = Fin (1 / 2)"
  using round64_exact [of 1 "- 1"] by (simp add: pow2_def)

lemma round64_minus_1: "round64 (- 1) = Fin (- 1)"
  using round64_exact [of "- 1" 0] by (simp add: pow2_def)

lemma round64_5: "round64 5 = Fin 5"
  using round64_exact [of 5 0] by (simp add: pow2_def)

lemma round64_minus_quarter: "round64 (- (1 / 4)) = Fin (- (1 / 4))"
  using round64_exact [of "- 1" "- 2"] by (simp add: pow2_def)

text \<open>
  Two checks of the rounding: \<open>1/10\<close> is not a binary64 number and rounds up to
  \<open>3602879701896397 / 2^55\<close>, the binary64 written \<open>0.1\<close>; and every number from \<open>2^1024\<close> on
  overflows to the positive infinity.
\<close>

lemma floor_rat_numeral: "\<lfloor>(numeral a :: rat) / numeral b\<rfloor> = numeral a div numeral b"
  using floor_divide_of_int_eq [where ?'a = rat, of "numeral a" "numeral b"] by simp

lemma ilog2_tenth: "ilog2 (1 / 10) = - 4"
  by (rule ilog2_unique) (simp_all add: pow2_def)

lemma round64_tenth: "round64 (1 / 10) = Fin (3602879701896397 / 36028797018963968)"
  by (simp add: round64_def ilog2_tenth pow2_def round_half_even_def Let_def floor_rat_numeral)

lemma round_half_even_lower: "\<lfloor>x\<rfloor> \<le> round_half_even x"
  by (simp add: round_half_even_def Let_def)

lemma round64_overflow:
  assumes "2 ^ 1024 \<le> q"
  shows "round64 q = PInf"
proof -
  define e where "e = ilog2 q"
  define u where "u = pow2 (e - 52)"
  define r where "r = of_int (round_half_even (q / u)) * u"
  have q0: "0 < q" using assms by (rule less_le_trans [rotated]) simp
  have "pow2 1024 \<le> q" using assms by (simp add: pow2_def)
  then have "pow2 1024 < pow2 (e + 1)" using ilog2_upper [OF q0] by (simp add: e_def)
  then have e: "1024 \<le> e" using pow2_less_imp [of 1024 "e + 1"] by simp
  have u0: "0 < u" by (simp add: u_def pow2_pos)
  have pe: "pow2 e = pow2 52 * u" using pow2_add [of 52 "e - 52"] by (simp add: u_def)
  then have "pow2 52 * u \<le> q" using ilog2_lower [OF q0] by (simp add: e_def)
  then have "pow2 52 \<le> q / u" using u0 by (simp add: pos_le_divide_eq)
  then have "(of_int (2 ^ 52) :: rat) \<le> q / u" by (simp add: pow2_def)
  then have "2 ^ 52 \<le> \<lfloor>q / u\<rfloor>" by (simp only: le_floor_iff)
  then have "2 ^ 52 \<le> round_half_even (q / u)"
    using round_half_even_lower [of "q / u"] by linarith
  then have "(of_int (2 ^ 52) :: rat) \<le> of_int (round_half_even (q / u))"
    by (simp only: of_int_le_iff)
  then have "pow2 52 * u \<le> r"
    unfolding r_def using u0 by (intro mult_right_mono) (simp_all add: pow2_def)
  then have "pow2 e \<le> r" using pe by simp
  moreover have "pow2 1024 \<le> pow2 e" using e by (rule pow2_mono)
  ultimately have "2 ^ 1024 \<le> r" by (simp add: pow2_def)
  moreover have "max (ilog2 q) (- 1022) = e" using e by (simp add: e_def)
  ultimately show ?thesis
    using q0 unfolding round64_def Let_def
    by (simp add: abs_of_pos u_def [symmetric] r_def [symmetric])
qed

section \<open>Facts about the loops\<close>

lemma range_loop_panics:
  assumes "x \<in> set xs" and "\<And>st. body st x = None"
  shows "range_loop body st xs = None"
  using assms(1)
proof (induction xs arbitrary: st)
  case Nil
  then show ?case by simp
next
  case (Cons y ys)
  show ?case
  proof (cases "body st y")
    case None
    then show ?thesis by simp
  next
    case (Some st')
    then have "y \<noteq> x" using assms(2) [of st] by auto
    then have "x \<in> set ys" using Cons.prems by simp
    then show ?thesis using Some Cons.IH by simp
  qed
qed

lemma range_loop_invariant:
  assumes "P st"
    and "\<And>s x s'. x \<in> set xs \<Longrightarrow> P s \<Longrightarrow> body s x = Some s' \<Longrightarrow> P s'"
    and "range_loop body st xs = Some st'"
  shows "P st'"
  using assms
proof (induction xs arbitrary: st)
  case Nil
  then show ?case by simp
next
  case (Cons y ys)
  from Cons.prems(3) obtain s1 where s1: "body st y = Some s1"
    and rest: "range_loop body s1 ys = Some st'"
    by (auto split: option.splits)
  have 1: "P s1" using Cons.prems(2) [of y st s1] Cons.prems(1) s1 by simp
  have 2: "P s'" if "x \<in> set ys" "P s" "body s x = Some s'" for s x s'
    using that Cons.prems(2) [of x s s'] by simp
  show ?case using 1 2 rest by (rule Cons.IH)
qed

lemma split_from_no_sep: "sep \<notin> set s \<Longrightarrow> split_from cur sep s = [rev cur @ s]"
  by (induction s arbitrary: cur) auto

lemma Split_no_sep: "sep \<notin> set s \<Longrightarrow> Split s sep = [s]"
  by (simp add: Split_def split_from_no_sep)

section \<open>Empty command output\<close>

text \<open>
  C5. Either parser, run on the empty text, returns the empty map and does not panic.
\<close>

theorem empty_output_empty_map:
  "ParseAllocatedGPUs [] = Some Map.empty \<and> ParseTotalGPUs [] = Some Map.empty"
  by (simp add: ParseAllocatedGPUs_def ParseTotalGPUs_def)

section \<open>The samples, evaluated\<close>

text \<open>\<open>lower\<close> is the bitwise or with \<open>0x20\<close> of the library.\<close>

lemma lower_or: "lower c = char_of (or (of_char c :: nat) 32)"
proof (cases c)
  case (Char b0 b1 b2 b3 b4 b5 b6 b7)
  have "bit (32 :: nat) n \<longleftrightarrow> n = 5" for n
    using bit_exp_iff [where ?'a = nat, of 5 n] by (simp add: eq_commute)
  then show ?thesis
    unfolding Char lower_def char_of_def of_char_def char.case char.sel bit_or_iff
      bit_horner_sum_bit_iff
    by (simp add: bit_0)
qed

lemmas char_eval =
  is_digit_def digit_val_def lower_def is_hex_letter_def hex_letter_val_def ascii_lower_def
  char_of_def bit_0

lemmas atof_eval =
  ParseFloat_def special_def readFloat_def atof_value_def underscoreOK_def pow10_def pow2_def
  Let_def char_eval

text \<open>The grammar of \<open>strconv.ParseFloat\<close>, on some texts.\<close>

lemma ParseFloat_examples:
  "ParseFloat ''1e3'' = (Fin 1000, None)"
  "ParseFloat ''0x1p4'' = (Fin 16, None)"
  "ParseFloat ''1_000'' = (Fin 1000, None)"
  "ParseFloat ''1__0'' = (Fin 0, Some ErrSyntax)"
  "ParseFloat ''-Infinity'' = (NInf, None)"
  "ParseFloat ''NaN'' = (NaN, None)"
  "ParseFloat ''+nan'' = (Fin 0, Some ErrSyntax)"
  "ParseFloat ''-0'' = (NegZero, None)"
  "ParseFloat ''2 '' = (Fin 0, Some ErrSyntax)"
  "ParseFloat [] = (Fin 0, Some ErrSyntax)"
  using round64_exact [of 1000 0] round64_exact [of 16 0]
  by (simp_all add: atof_eval)

lemma ParseFloat_2: "ParseFloat ''2'' = (Fin 2, None)"
  by (simp add: atof_eval round64_2)

lemma ParseFloat_4: "ParseFloat ''4'' = (Fin 4, None)"
  by (simp add: atof_eval round64_4)

lemma ParseFloat_minus_1: "ParseFloat ''-1'' = (Fin (- 1), None)"
  by (simp add: atof_eval round64_minus_1)

lemma ParseFloat_xyz: "ParseFloat ''xyz'' = (Fin 0, Some ErrSyntax)"
  by (simp add: atof_eval)

lemma ParseFloat_inf: "ParseFloat ''inf'' = (PInf, None)"
  by (simp add: atof_eval)

lemmas parser_eval =
  ParseAllocatedGPUs_def alloc_line_def alloc_resource_def ParseTotalGPUs_def total_line_def
  total_resource_def Split_def Trim_def Fields_def HasPrefix_def TrimPrefix_def lookup_def
  fadd_def Let_def

lemma squeue_sample: "ParseAllocatedGPUs ''gres/gpu:a100=2,cpu=1'' = Some [''a100'' \<mapsto> Fin 2]"
  by (simp add: parser_eval ParseFloat_2 round64_2)

lemma sinfo_sample: "ParseTotalGPUs ''node01 gpu:a100:4(S:0)'' = Some [''a100'' \<mapsto> Fin 4]"
  by (simp add: parser_eval ParseFloat_4 round64_4)

lemma squeue_v100: "ParseAllocatedGPUs ''gres/gpu:v100=2'' = Some [''v100'' \<mapsto> Fin 2]"
  by (simp add: parser_eval ParseFloat_2 round64_2)

lemma squeue_inf: "ParseAllocatedGPUs ''gres/gpu:a100=inf'' = Some [''a100'' \<mapsto> PInf]"
  by (simp add: parser_eval ParseFloat_inf)

lemma squeue_malformed: "ParseAllocatedGPUs ''gres/gpu:a100=xyz'' = Some [''a100'' \<mapsto> Fin 0]"
  by (simp add: parser_eval ParseFloat_xyz)

lemma squeue_negative: "ParseAllocatedGPUs ''gres/gpu:a100=-1'' = Some [''a100'' \<mapsto> Fin (- 1)]"
  by (simp add: parser_eval ParseFloat_minus_1 round64_minus_1)

section \<open>The aggregation\<close>

lemma metrics_entry_eq:
  "metrics_entry totals allocs types g =
     types(g \<mapsto> \<lparr>alloc = lookup allocs g,
                 idle = fsub (lookup totals g) (lookup allocs g),
                 total = lookup totals g,
                 utilization = fdiv (lookup allocs g) (lookup totals g)\<rparr>)"
  by (simp add: metrics_entry_def Let_def)

lemma foldl_metrics_entry:
  "foldl (metrics_entry totals allocs) types keys k =
     (if k \<in> set keys
      then Some \<lparr>alloc = lookup allocs k,
                 idle = fsub (lookup totals k) (lookup allocs k),
                 total = lookup totals k,
                 utilization = fdiv (lookup allocs k) (lookup totals k)\<rparr>
      else types k)"
  by (induction keys arbitrary: types) (auto simp add: metrics_entry_eq)

lemma metrics_loop_key:
  "metrics_loop totals allocs keys k =
     (if k \<in> set keys
      then Some \<lparr>alloc = lookup allocs k,
                 idle = fsub (lookup totals k) (lookup allocs k),
                 total = lookup totals k,
                 utilization = fdiv (lookup allocs k) (lookup totals k)\<rparr>
      else None)"
  by (simp add: metrics_loop_def foldl_metrics_entry)

text \<open>
  C1. The samples \<open>gres/gpu:a100=2,cpu=1\<close> of \<open>squeue\<close> and \<open>node01 gpu:a100:4(S:0)\<close> of
  \<open>sinfo\<close> give exactly one record, for the key \<open>a100\<close>, with alloc 2, total 4, idle 2
  and utilization 0.5, in whatever order the keys of the totals (here the one key
  \<open>a100\<close>) are visited.
\<close>

theorem round_trip_sample:
  assumes "set keys = {''a100''}"
  shows "ParseGPUsMetrics keys ''node01 gpu:a100:4(S:0)'' ''gres/gpu:a100=2,cpu=1'' =
           Some [''a100'' \<mapsto>
             \<lparr>alloc = Fin 2, idle = Fin 2, total = Fin 4, utilization = Fin (1 / 2)\<rparr>]"
proof -
  have sub: "fsub (Fin 4) (Fin 2) = Fin 2"
    by (simp add: fsub_def fadd_def round64_2)
  have quot: "fdiv (Fin 2) (Fin 4) = Fin (1 / 2)"
    by (simp add: fdiv_def round64_half)
  have "metrics_loop [''a100'' \<mapsto> Fin 4] [''a100'' \<mapsto> Fin 2] keys =
          [''a100'' \<mapsto> \<lparr>alloc = Fin 2, idle = Fin 2, total = Fin 4, utilization = Fin (1 / 2)\<rparr>]"
    using assms by (auto simp add: metrics_loop_key lookup_def sub quot fun_eq_iff)
  then show ?thesis
    by (simp add: ParseGPUsMetrics_def sinfo_sample squeue_sample)
qed

theorem round_trip_sample_witness:
  "set [''a100''] = {''a100''} \<and>
   ParseGPUsMetrics [''a100''] ''node01 gpu:a100:4(S:0)'' ''gres/gpu:a100=2,cpu=1'' =
     Some [''a100'' \<mapsto>
       \<lparr>alloc = Fin 2, idle = Fin 2, total = Fin 4, utilization = Fin (1 / 2)\<rparr>]"
  using round_trip_sample [of "[''a100'']"] by simp

text \<open>
  C2. For any two maps and any key of the inventory map, the record of the key has
  alloc the value of the allocation map at the key (0 when the key is absent), total the
  value of the inventory map, idle \<open>total - alloc\<close> and utilization \<open>alloc / total\<close>, in
  float64 arithmetic, in whatever order the keys of the inventory map are visited.
\<close>

theorem aggregator_contract:
  assumes "set keys = dom totals" and "totals k = Some t"
  shows "metrics_loop totals allocs keys k =
           Some \<lparr>alloc = (case allocs k of None \<Rightarrow> Fin 0 | Some a \<Rightarrow> a),
                 idle = fsub t (case allocs k of None \<Rightarrow> Fin 0 | Some a \<Rightarrow> a),
                 total = t,
                 utilization = fdiv (case allocs k of None \<Rightarrow> Fin 0 | Some a \<Rightarrow> a) t\<rparr>"
proof -
  have "k \<in> set keys" using assms by auto
  then show ?thesis using assms(2) by (simp add: metrics_loop_key lookup_def)
qed

theorem aggregator_contract_witness:
  "set [''a100'', ''v100''] = dom [''a100'' \<mapsto> Fin 4, ''v100'' \<mapsto> Fin 2] \<and>
   [''a100'' \<mapsto> Fin 4, ''v100'' \<mapsto> Fin 2] ''v100'' = Some (Fin 2) \<and>
   metrics_loop [''a100'' \<mapsto> Fin 4, ''v100'' \<mapsto> Fin 2] [''a100'' \<mapsto> Fin 2]
       [''a100'', ''v100''] ''v100'' =
     Some \<lparr>alloc = Fin 0, idle = Fin 2, total = Fin 2, utilization = Fin 0\<rparr>"
proof -
  define totals where "totals = [''a100'' \<mapsto> Fin 4, ''v100'' \<mapsto> Fin 2]"
  define allocs where "allocs = [''a100'' \<mapsto> Fin 2]"
  have d: "set [''a100'', ''v100''] = dom totals"
    by (auto simp add: totals_def)
  have v: "totals ''v100'' = Some (Fin 2)"
    by (simp add: totals_def)
  have a: "allocs ''v100'' = None"
    by (simp add: allocs_def)
  have sub: "fsub (Fin 2) (Fin 0) = Fin 2"
    by (simp add: fsub_def fadd_def round64_2)
  have quot: "fdiv (Fin 0) (Fin 2) = Fin 0"
    by (simp add: fdiv_def)
  have "metrics_loop totals allocs [''a100'', ''v100''] ''v100'' =
          Some \<lparr>alloc = Fin 0, idle = Fin 2, total = Fin 2, utilization = Fin 0\<rparr>"
    using aggregator_contract [OF d v, of allocs] by (simp add: a sub quot)
  then show ?thesis using d v unfolding totals_def allocs_def by blast
qed

text \<open>
  C4. A GPU type that the allocation parser reports and the inventory parser does not
  has no record in the result.
\<close>

theorem allocated_only_type_dropped:
  assumes "ParseTotalGPUs sinfo_output = Some totals"
    and "ParseAllocatedGPUs squeue_output = Some allocs"
    and "set keys = dom totals"
    and "allocs k \<noteq> None" and "totals k = None"
  shows "\<exists>types. ParseGPUsMetrics keys sinfo_output squeue_output = Some types \<and>
           types k = None"
proof -
  have "k \<notin> set keys" using assms(3,5) by auto
  then show ?thesis using assms(1,2) by (simp add: ParseGPUsMetrics_def metrics_loop_key)
qed

theorem allocated_only_type_dropped_witness:
  "ParseTotalGPUs ''node01 gpu:a100:4(S:0)'' = Some [''a100'' \<mapsto> Fin 4] \<and>
   ParseAllocatedGPUs ''gres/gpu:v100=2'' = Some [''v100'' \<mapsto> Fin 2] \<and>
   set [''a100''] = dom [''a100'' \<mapsto> Fin 4] \<and>
   [''v100'' \<mapsto> Fin 2] ''v100'' \<noteq> None \<and>
   [''a100'' \<mapsto> Fin 4] ''v100'' = None \<and>
   (\<exists>types. ParseGPUsMetrics [''a100''] ''node01 gpu:a100:4(S:0)'' ''gres/gpu:v100=2'' =
              Some types \<and> types ''v100'' = None)"
proof -
  have d: "set [''a100''] = dom [''a100'' \<mapsto> Fin 4]"
    by simp
  have a: "[''v100'' \<mapsto> Fin 2] ''v100'' \<noteq> None"
    by simp
  have t: "[''a100'' \<mapsto> Fin 4] ''v100'' = None"
    by simp
  show ?thesis
    using allocated_only_type_dropped [OF sinfo_sample squeue_v100 d a t]
      sinfo_sample squeue_v100 d a t
    by blast
qed

section \<open>Where the parsers panic\<close>

lemma Split_Nil: "Split [] sep = [[]]"
  by (simp add: Split_def)

lemma alloc_resource_no_equals:
  assumes "HasPrefix resource ''gres/gpu:''"
    and "CHR ''='' \<notin> set (TrimPrefix resource ''gres/gpu:'')"
  shows "alloc_resource gpu_map resource = None"
  using assms by (simp add: alloc_resource_def Split_no_sep Let_def)

text \<open>
  C10. The allocation parser is not total: when a line holds a resource that begins with
  \<open>gres/gpu:\<close> and has no \<open>=\<close> after the prefix, \<open>values[1]\<close> is out of range and the
  parser panics.
\<close>

theorem alloc_parser_panics_without_equals:
  assumes "line \<in> set (Split output (CHR 0x0A))" and "line \<noteq> []"
    and "resource \<in> set (Split (Trim line (CHR 0x22)) (CHR '',''))"
    and "HasPrefix resource ''gres/gpu:''"
    and "CHR ''='' \<notin> set (TrimPrefix resource ''gres/gpu:'')"
  shows "ParseAllocatedGPUs output = None"
proof -
  have "output \<noteq> []" using assms(1,2) by (auto simp add: Split_Nil)
  moreover have "alloc_line gpu_map line = None" for gpu_map
    using assms(2) range_loop_panics [OF assms(3), of alloc_resource gpu_map]
      alloc_resource_no_equals [OF assms(4,5)]
    by (simp add: alloc_line_def)
  ultimately show ?thesis
    using range_loop_panics [OF assms(1), of alloc_line Map.empty]
    by (simp add: ParseAllocatedGPUs_def)
qed

theorem alloc_parser_panics_without_equals_witness:
  "''gres/gpu:a100'' \<in> set (Split ''gres/gpu:a100'' (CHR 0x0A)) \<and>
   ''gres/gpu:a100'' \<noteq> [] \<and>
   ''gres/gpu:a100'' \<in> set (Split (Trim ''gres/gpu:a100'' (CHR 0x22)) (CHR '','')) \<and>
   HasPrefix ''gres/gpu:a100'' ''gres/gpu:'' \<and>
   CHR ''='' \<notin> set (TrimPrefix ''gres/gpu:a100'' ''gres/gpu:'') \<and>
   ParseAllocatedGPUs ''gres/gpu:a100'' = None"
proof -
  have 1: "''gres/gpu:a100'' \<in> set (Split ''gres/gpu:a100'' (CHR 0x0A))"
    by (simp add: Split_def)
  have 2: "''gres/gpu:a100'' \<noteq> []"
    by simp
  have 3: "''gres/gpu:a100'' \<in> set (Split (Trim ''gres/gpu:a100'' (CHR 0x22)) (CHR '',''))"
    by (simp add: Split_def Trim_def)
  have 4: "HasPrefix ''gres/gpu:a100'' ''gres/gpu:''"
    by (simp add: HasPrefix_def)
  have 5: "CHR ''='' \<notin> set (TrimPrefix ''gres/gpu:a100'' ''gres/gpu:'')"
    by (simp add: TrimPrefix_def HasPrefix_def)
  show ?thesis
    using alloc_parser_panics_without_equals [OF 1 2 3 4 5] 1 2 3 4 5 by blast
qed

lemma total_resource_few_segments:
  assumes "HasPrefix resource ''gpu:''" and "length (Split resource (CHR '':'')) < 3"
  shows "total_resource gpu_map resource = None"
proof -
  have "length (Split resource (CHR '':'')) \<le> 2" using assms(2) by simp
  then show ?thesis using assms(1) by (simp add: total_resource_def)
qed

text \<open>
  C9. The inventory parser is not total: it panics on an input with a non-empty line
  that has fewer than two fields (\<open>strings.Fields(line)[1]\<close> is out of range), and on an
  input with a line whose second field holds a resource with the prefix \<open>gpu:\<close> and
  fewer than three segments between colons (the index 2 is out of range).
\<close>

theorem total_parser_panics:
  assumes "line \<in> set (Split output (CHR 0x0A))" and "line \<noteq> []"
    and "length (Fields (Trim line (CHR 0x22))) < 2 \<or>
         (\<exists>resource. resource \<in> set (Split (Fields (Trim line (CHR 0x22)) ! 1) (CHR '','')) \<and>
            HasPrefix resource ''gpu:'' \<and> length (Split resource (CHR '':'')) < 3)"
  shows "ParseTotalGPUs output = None"
proof -
  have "output \<noteq> []" using assms(1,2) by (auto simp add: Split_Nil)
  moreover have "total_line gpu_map line = None" for gpu_map
  proof (cases "length (Fields (Trim line (CHR 0x22))) < 2")
    case True
    then have "length (Fields (Trim line (CHR 0x22))) \<le> 1" by simp
    then show ?thesis using assms(2) by (simp add: total_line_def)
  next
    case False
    then obtain resource
      where r: "resource \<in> set (Split (Fields (Trim line (CHR 0x22)) ! 1) (CHR '',''))"
        "HasPrefix resource ''gpu:''" "length (Split resource (CHR '':'')) < 3"
      using assms(3) by blast
    show ?thesis
      using assms(2) False range_loop_panics [OF r(1), of total_resource gpu_map]
        total_resource_few_segments [OF r(2,3)]
      by (simp add: total_line_def Let_def)
  qed
  ultimately show ?thesis
    using range_loop_panics [OF assms(1), of total_line Map.empty]
    by (simp add: ParseTotalGPUs_def)
qed

theorem total_parser_panics_witness:
  "''node01'' \<in> set (Split ''node01'' (CHR 0x0A)) \<and> ''node01'' \<noteq> [] \<and>
   length (Fields (Trim ''node01'' (CHR 0x22))) < 2 \<and>
   ParseTotalGPUs ''node01'' = None \<and>
   ''node01 gpu:a100'' \<in> set (Split ''node01 gpu:a100'' (CHR 0x0A)) \<and>
   ''node01 gpu:a100'' \<noteq> [] \<and>
   ''gpu:a100'' \<in> set (Split (Fields (Trim ''node01 gpu:a100'' (CHR 0x22)) ! 1) (CHR '','')) \<and>
   HasPrefix ''gpu:a100'' ''gpu:'' \<and> length (Split ''gpu:a100'' (CHR '':'')) < 3 \<and>
   ParseTotalGPUs ''node01 gpu:a100'' = None"
proof -
  have a1: "''node01'' \<in> set (Split ''node01'' (CHR 0x0A))"
    by (simp add: Split_def)
  have a2: "''node01'' \<noteq> []"
    by simp
  have a3: "length (Fields (Trim ''node01'' (CHR 0x22))) < 2"
    by (simp add: Fields_def Trim_def)
  have a: "ParseTotalGPUs ''node01'' = None"
    using total_parser_panics [OF a1 a2] a3 by blast
  have b1: "''node01 gpu:a100'' \<in> set (Split ''node01 gpu:a100'' (CHR 0x0A))"
    by (simp add: Split_def)
  have b2: "''node01 gpu:a100'' \<noteq> []"
    by simp
  have b3: "''gpu:a100'' \<in>
      set (Split (Fields (Trim ''node01 gpu:a100'' (CHR 0x22)) ! 1) (CHR '',''))"
    by (simp add: Fields_def Trim_def Split_def)
  have b4: "HasPrefix ''gpu:a100'' ''gpu:''"
    by (simp add: HasPrefix_def)
  have b5: "length (Split ''gpu:a100'' (CHR '':'')) < 3"
    by (simp add: Split_def)
  have b: "ParseTotalGPUs ''node01 gpu:a100'' = None"
    using total_parser_panics [OF b1 b2] b3 b4 b5 by blast
  show ?thesis
    using a1 a2 a3 a b1 b2 b3 b4 b5 b by blast
qed

section \<open>Malformed counts\<close>

lemma ParseFloat_syntax_zero:
  "snd (ParseFloat s) = Some ErrSyntax \<Longrightarrow> fst (ParseFloat s) = Fin 0"
  by (auto simp add: ParseFloat_def split: option.splits prod.splits if_splits)

text \<open>
  Adding the count 0 leaves a running total that is a binary64 number as it is (the
  negative zero becomes the positive zero).
\<close>

lemma fadd_zero_right: "round64 a = Fin a \<Longrightarrow> fadd (Fin a) (Fin 0) = Fin a"
  by (simp add: fadd_def)

text \<open>
  C7. A resource of the allocation parser with the prefix \<open>gres/gpu:\<close> whose count text
  (the second piece of the split at \<open>=\<close>) is not a number for \<open>strconv.ParseFloat\<close>
  does not make the parser fail: the parser adds the count 0 to the running total of
  the type.
\<close>

theorem malformed_count_contributes_zero:
  assumes "HasPrefix resource ''gres/gpu:''"
    and "Split (TrimPrefix resource ''gres/gpu:'') (CHR ''='') = gpu_type # text # rest"
    and "snd (ParseFloat text) = Some ErrSyntax"
  shows "alloc_resource gpu_map resource =
           Some (gpu_map(gpu_type \<mapsto> fadd (lookup gpu_map gpu_type) (Fin 0)))"
  using assms by (simp add: alloc_resource_def Let_def ParseFloat_syntax_zero)

theorem malformed_count_contributes_zero_witness:
  "HasPrefix ''gres/gpu:a100=xyz'' ''gres/gpu:'' \<and>
   Split (TrimPrefix ''gres/gpu:a100=xyz'' ''gres/gpu:'') (CHR ''='') = ''a100'' # ''xyz'' # [] \<and>
   snd (ParseFloat ''xyz'') = Some ErrSyntax \<and>
   alloc_resource Map.empty ''gres/gpu:a100=xyz'' = Some [''a100'' \<mapsto> Fin 0] \<and>
   ParseAllocatedGPUs ''gres/gpu:a100=xyz'' = Some [''a100'' \<mapsto> Fin 0]"
proof -
  have 1: "HasPrefix ''gres/gpu:a100=xyz'' ''gres/gpu:''"
    by (simp add: HasPrefix_def)
  have 2: "Split (TrimPrefix ''gres/gpu:a100=xyz'' ''gres/gpu:'') (CHR ''='') =
             ''a100'' # ''xyz'' # []"
    by (simp add: TrimPrefix_def HasPrefix_def Split_def)
  have 3: "snd (ParseFloat ''xyz'') = Some ErrSyntax"
    by (simp add: ParseFloat_xyz)
  have "fadd (lookup Map.empty ''a100'') (Fin 0) = Fin 0"
    by (simp add: lookup_def fadd_def)
  then have "alloc_resource Map.empty ''gres/gpu:a100=xyz'' = Some [''a100'' \<mapsto> Fin 0]"
    using malformed_count_contributes_zero [OF 1 2 3, of Map.empty] by simp
  then show ?thesis using 1 2 3 squeue_malformed by blast
qed

section \<open>Signs\<close>

lemma round_half_even_nonneg: "0 \<le> q \<Longrightarrow> 0 \<le> round_half_even q"
  by (auto simp add: round_half_even_def Let_def)

lemma round64_nonneg: "0 \<le> q \<Longrightarrow> fle (Fin 0) (round64 q)"
proof -
  assume q: "0 \<le> q"
  have "0 \<le> of_int (round_half_even (\<bar>q\<bar> / u)) * u" if "0 < u" for u :: rat
    using that round_half_even_nonneg [of "\<bar>q\<bar> / u"] by simp
  then show ?thesis
    using q pow2_pos by (simp add: round64_def Let_def fle_def)
qed

lemma fle_zero_cases:
  "fle (Fin 0) x \<longleftrightarrow> x = PInf \<or> x = NegZero \<or> (\<exists>a. x = Fin a \<and> 0 \<le> a)"
  by (cases x) (simp_all add: fle_def)

lemma fadd_nonneg:
  assumes "fle (Fin 0) x" and "fle (Fin 0) y"
  shows "fle (Fin 0) (fadd x y)"
proof -
  have "0 \<le> fval x + fval y"
    using assms by (auto simp add: fle_zero_cases)
  then have "fle (Fin 0) (round64 (fval x + fval y))"
    by (rule round64_nonneg)
  then show ?thesis
    using assms by (auto simp add: fle_zero_cases fadd_def)
qed

lemma lookup_nonneg:
  "(\<And>k x. m k = Some x \<Longrightarrow> fle (Fin 0) x) \<Longrightarrow> fle (Fin 0) (lookup m t)"
  by (cases "m t") (simp_all add: lookup_def fle_zero_cases)


text \<open>
  The invariant of both parsers: every value of the map is at least 0. A step keeps it
  when the count it adds is at least 0.
\<close>

lemma update_nonneg:
  assumes "\<And>k x. m k = Some x \<Longrightarrow> fle (Fin 0) x" and "fle (Fin 0) c"
    and "(m(t \<mapsto> fadd (lookup m t) c)) k = Some x"
  shows "fle (Fin 0) x"
proof (cases "k = t")
  case True
  then have "x = fadd (lookup m t) c" using assms(3) by simp
  then show ?thesis using fadd_nonneg [OF lookup_nonneg [of m t] assms(2)] assms(1) by simp
next
  case False
  then show ?thesis using assms(1,3) by simp
qed

text \<open>
  C8, as amended. The values of the allocation map and of the inventory map are
  non-negative on every input on which the parser returns and every count it reads is
  non-negative (at least 0, so not NaN): the counts are the second piece of the split at
  \<open>=\<close> of each resource with the prefix \<open>gres/gpu:\<close>, and the third colon segment up to
  the first \<open>(\<close> of each resource with the prefix \<open>gpu:\<close> in the second field of a line.
\<close>

theorem parsers_nonnegative:
  "((\<forall>line \<in> set (Split output (CHR 0x0A)).
       \<forall>resource \<in> set (Split (Trim line (CHR 0x22)) (CHR '','')).
         HasPrefix resource ''gres/gpu:'' \<longrightarrow>
         1 < length (Split (TrimPrefix resource ''gres/gpu:'') (CHR ''='')) \<longrightarrow>
         fle (Fin 0)
           (fst (ParseFloat (Split (TrimPrefix resource ''gres/gpu:'') (CHR ''='') ! 1)))) \<longrightarrow>
    ParseAllocatedGPUs output = Some m \<longrightarrow> m k = Some x \<longrightarrow> fle (Fin 0) x) \<and>
   ((\<forall>line \<in> set (Split output (CHR 0x0A)).
       1 < length (Fields (Trim line (CHR 0x22))) \<longrightarrow>
       (\<forall>resource \<in> set (Split (Fields (Trim line (CHR 0x22)) ! 1) (CHR '','')).
          HasPrefix resource ''gpu:'' \<longrightarrow>
          2 < length (Split resource (CHR '':'')) \<longrightarrow>
          fle (Fin 0)
            (fst (ParseFloat (Split (Split resource (CHR '':'') ! 2) (CHR ''('') ! 0))))) \<longrightarrow>
    ParseTotalGPUs output = Some m \<longrightarrow> m k = Some x \<longrightarrow> fle (Fin 0) x)"
proof (intro conjI impI)
  let ?P = "\<lambda>m :: gpu_map. \<forall>k x. m k = Some x \<longrightarrow> fle (Fin 0) x"
  assume counts: "\<forall>line \<in> set (Split output (CHR 0x0A)).
       \<forall>resource \<in> set (Split (Trim line (CHR 0x22)) (CHR '','')).
         HasPrefix resource ''gres/gpu:'' \<longrightarrow>
         1 < length (Split (TrimPrefix resource ''gres/gpu:'') (CHR ''='')) \<longrightarrow>
         fle (Fin 0)
           (fst (ParseFloat (Split (TrimPrefix resource ''gres/gpu:'') (CHR ''='') ! 1)))"
    and ret: "ParseAllocatedGPUs output = Some m" and mk: "m k = Some x"
  have resource: "?P s'"
    if "line \<in> set (Split output (CHR 0x0A))"
      and "resource \<in> set (Split (Trim line (CHR 0x22)) (CHR '',''))"
      and "?P s" and "alloc_resource s resource = Some s'" for line resource s s'
  proof (cases "HasPrefix resource ''gres/gpu:''")
    case True
    let ?vals = "Split (TrimPrefix resource ''gres/gpu:'') (CHR ''='')"
    have len: "1 < length ?vals"
      using that(4) True by (simp add: alloc_resource_def Let_def split: if_splits)
    then have c: "fle (Fin 0) (fst (ParseFloat (?vals ! 1)))"
      using counts that(1,2) True by blast
    have "s' = s(?vals ! 0 \<mapsto> fadd (lookup s (?vals ! 0)) (fst (ParseFloat (?vals ! 1))))"
      using that(4) True len by (simp add: alloc_resource_def Let_def)
    then show ?thesis using update_nonneg [OF _ c] that(3) by blast
  next
    case False
    then show ?thesis using that(3,4) by (simp add: alloc_resource_def)
  qed
  have line: "?P s'"
    if "line \<in> set (Split output (CHR 0x0A))" and "?P s" and "alloc_line s line = Some s'"
    for line s s'
  proof (cases "line = []")
    case True
    then show ?thesis using that(2,3) by (simp add: alloc_line_def)
  next
    case False
    then have loop:
      "range_loop alloc_resource s (Split (Trim line (CHR 0x22)) (CHR '','')) = Some s'"
      using that(3) by (simp add: alloc_line_def)
    show ?thesis
    proof (rule range_loop_invariant [where P = ?P, OF that(2) _ loop])
      fix s0 r s1
      assume "r \<in> set (Split (Trim line (CHR 0x22)) (CHR '',''))" "?P s0"
        "alloc_resource s0 r = Some s1"
      then show "?P s1" by (rule resource [OF that(1)])
    qed
  qed
  have "?P m"
  proof (cases "output = []")
    case True
    then show ?thesis using ret by (auto simp add: ParseAllocatedGPUs_def)
  next
    case False
    then have loop: "range_loop alloc_line Map.empty (Split output (CHR 0x0A)) = Some m"
      using ret by (simp add: ParseAllocatedGPUs_def)
    have init: "?P Map.empty" by simp
    show ?thesis
    proof (rule range_loop_invariant [where P = ?P, OF init _ loop])
      fix s0 l s1
      assume "l \<in> set (Split output (CHR 0x0A))" "?P s0" "alloc_line s0 l = Some s1"
      then show "?P s1" by (rule line)
    qed
  qed
  then show "fle (Fin 0) x" using mk by blast
next
  let ?P = "\<lambda>m :: gpu_map. \<forall>k x. m k = Some x \<longrightarrow> fle (Fin 0) x"
  assume counts: "\<forall>line \<in> set (Split output (CHR 0x0A)).
       1 < length (Fields (Trim line (CHR 0x22))) \<longrightarrow>
       (\<forall>resource \<in> set (Split (Fields (Trim line (CHR 0x22)) ! 1) (CHR '','')).
          HasPrefix resource ''gpu:'' \<longrightarrow>
          2 < length (Split resource (CHR '':'')) \<longrightarrow>
          fle (Fin 0)
            (fst (ParseFloat (Split (Split resource (CHR '':'') ! 2) (CHR ''('') ! 0))))"
    and ret: "ParseTotalGPUs output = Some m" and mk: "m k = Some x"
  have resource: "?P s'"
    if "line \<in> set (Split output (CHR 0x0A))"
      and "1 < length (Fields (Trim line (CHR 0x22)))"
      and "resource \<in> set (Split (Fields (Trim line (CHR 0x22)) ! 1) (CHR '',''))"
      and "?P s" and "total_resource s resource = Some s'" for line resource s s'
  proof (cases "HasPrefix resource ''gpu:''")
    case True
    let ?segs = "Split resource (CHR '':'')"
    let ?count = "fst (ParseFloat (Split (?segs ! 2) (CHR ''('') ! 0))"
    have len: "2 < length ?segs"
      using that(5) True by (simp add: total_resource_def Let_def split: if_splits)
    then have c: "fle (Fin 0) ?count"
      using counts that(1,2,3) True by blast
    have "s' = s(?segs ! 1 \<mapsto> fadd (lookup s (?segs ! 1)) ?count)"
      using that(5) True len by (simp add: total_resource_def Let_def)
    then show ?thesis using update_nonneg [OF _ c] that(4) by blast
  next
    case False
    then show ?thesis using that(4,5) by (simp add: total_resource_def)
  qed
  have line: "?P s'"
    if "line \<in> set (Split output (CHR 0x0A))" and "?P s" and "total_line s line = Some s'"
    for line s s'
  proof (cases "line = []")
    case True
    then show ?thesis using that(2,3) by (simp add: total_line_def)
  next
    case False
    have len: "1 < length (Fields (Trim line (CHR 0x22)))"
      using that(3) False by (simp add: total_line_def Let_def split: if_splits)
    then have loop: "range_loop total_resource s
        (Split (Fields (Trim line (CHR 0x22)) ! 1) (CHR '','')) = Some s'"
      using that(3) False by (simp add: total_line_def Let_def)
    show ?thesis
    proof (rule range_loop_invariant [where P = ?P, OF that(2) _ loop])
      fix s0 r s1
      assume "r \<in> set (Split (Fields (Trim line (CHR 0x22)) ! 1) (CHR '',''))" "?P s0"
        "total_resource s0 r = Some s1"
      then show "?P s1" by (rule resource [OF that(1) len])
    qed
  qed
  have "?P m"
  proof (cases "output = []")
    case True
    then show ?thesis using ret by (auto simp add: ParseTotalGPUs_def)
  next
    case False
    then have loop: "range_loop total_line Map.empty (Split output (CHR 0x0A)) = Some m"
      using ret by (simp add: ParseTotalGPUs_def)
    have init: "?P Map.empty" by simp
    show ?thesis
    proof (rule range_loop_invariant [where P = ?P, OF init _ loop])
      fix s0 l s1
      assume "l \<in> set (Split output (CHR 0x0A))" "?P s0" "total_line s0 l = Some s1"
      then show "?P s1" by (rule line)
    qed
  qed
  then show "fle (Fin 0) x" using mk by blast
qed

theorem parsers_nonnegative_witness:
  "ParseAllocatedGPUs ''gres/gpu:a100=2,cpu=1'' = Some [''a100'' \<mapsto> Fin 2] \<and>
   [''a100'' \<mapsto> Fin 2] ''a100'' = Some (Fin 2) \<and> fle (Fin 0) (Fin 2) \<and>
   ParseTotalGPUs ''node01 gpu:a100:4(S:0)'' = Some [''a100'' \<mapsto> Fin 4] \<and>
   [''a100'' \<mapsto> Fin 4] ''a100'' = Some (Fin 4) \<and> fle (Fin 0) (Fin 4)"
proof -
  have a: "\<forall>line \<in> set (Split ''gres/gpu:a100=2,cpu=1'' (CHR 0x0A)).
       \<forall>resource \<in> set (Split (Trim line (CHR 0x22)) (CHR '','')).
         HasPrefix resource ''gres/gpu:'' \<longrightarrow>
         1 < length (Split (TrimPrefix resource ''gres/gpu:'') (CHR ''='')) \<longrightarrow>
         fle (Fin 0)
           (fst (ParseFloat (Split (TrimPrefix resource ''gres/gpu:'') (CHR ''='') ! 1)))"
    by (simp add: Split_def Trim_def HasPrefix_def TrimPrefix_def ParseFloat_2 fle_def)
  have ak: "[''a100'' \<mapsto> Fin 2] ''a100'' = Some (Fin 2)"
    by simp
  have t: "\<forall>line \<in> set (Split ''node01 gpu:a100:4(S:0)'' (CHR 0x0A)).
       1 < length (Fields (Trim line (CHR 0x22))) \<longrightarrow>
       (\<forall>resource \<in> set (Split (Fields (Trim line (CHR 0x22)) ! 1) (CHR '','')).
          HasPrefix resource ''gpu:'' \<longrightarrow>
          2 < length (Split resource (CHR '':'')) \<longrightarrow>
          fle (Fin 0)
            (fst (ParseFloat (Split (Split resource (CHR '':'') ! 2) (CHR ''('') ! 0))))"
    by (simp add: Split_def Trim_def Fields_def HasPrefix_def ParseFloat_4 fle_def)
  have tk: "[''a100'' \<mapsto> Fin 4] ''a100'' = Some (Fin 4)"
    by simp
  have "fle (Fin 0) (Fin 2)"
    using parsers_nonnegative
      [of "''gres/gpu:a100=2,cpu=1''" "[''a100'' \<mapsto> Fin 2]" "''a100''" "Fin 2"]
      a squeue_sample ak
    by blast
  moreover have "fle (Fin 0) (Fin 4)"
    using parsers_nonnegative
      [of "''node01 gpu:a100:4(S:0)''" "[''a100'' \<mapsto> Fin 4]" "''a100''" "Fin 4"]
      t sinfo_sample tk
    by blast
  ultimately show ?thesis
    using squeue_sample sinfo_sample ak tk by blast
qed

text \<open>
  C8, as the spec states it, fails: \<open>strconv.ParseFloat\<close> reads a sign, and the count
  \<open>-1\<close> makes the value of the allocation map negative.
\<close>

theorem parsers_nonnegative_counterexample:
  "ParseAllocatedGPUs ''gres/gpu:a100=-1'' = Some [''a100'' \<mapsto> Fin (- 1)] \<and>
   [''a100'' \<mapsto> Fin (- 1)] ''a100'' = Some (Fin (- 1)) \<and>
   \<not> fle (Fin 0) (Fin (- 1))"
  by (simp add: squeue_negative fle_def)

section \<open>The utilization\<close>

lemma fdiv_by_zero: "is_zero t \<Longrightarrow> \<not> is_finite (fdiv a t)"
  by (cases t; cases a) (auto simp add: fdiv_def)

lemma flt_zero_finite:
  "is_finite t \<Longrightarrow> flt (Fin 0) t \<Longrightarrow> \<exists>b. t = Fin b \<and> 0 < b"
  by (cases t) (simp_all add: flt_def)

lemma fdiv_nonneg:
  assumes "is_finite t" and "flt (Fin 0) t" and "fle (Fin 0) a"
  shows "fle (Fin 0) (fdiv a t)"
proof -
  obtain b where b: "t = Fin b" "0 < b" using flt_zero_finite [OF assms(1,2)] by blast
  consider "a = PInf" | "a = NegZero" | c where "a = Fin c" "0 \<le> c"
    using assms(3) by (auto simp add: fle_zero_cases)
  then show ?thesis
  proof cases
    case 1
    then show ?thesis using b by (simp add: fdiv_def fle_def)
  next
    case 2
    then show ?thesis using b by (simp add: fdiv_def fle_def)
  next
    case 3
    have "fle (Fin 0) (round64 (c / b))"
      using 3(2) b(2) by (intro round64_nonneg) simp
    moreover have "fdiv a t = (if c = 0 then Fin 0 else round64 (c / b))"
      using 3 b by (simp add: fdiv_def)
    ultimately show ?thesis by (auto simp add: fle_zero_cases)
  qed
qed

lemma round_half_even_upper: "of_int (round_half_even x) \<le> x + 1 / 2"
proof -
  define f where "f = \<lfloor>x\<rfloor>"
  have f: "of_int f \<le> x" unfolding f_def by (rule of_int_floor_le)
  have "round_half_even x = f \<or> round_half_even x = f + 1 \<and> 1 / 2 \<le> x - of_int f"
    by (auto simp add: round_half_even_def Let_def f_def)
  then show ?thesis
  proof
    assume "round_half_even x = f"
    then show ?thesis using f by simp
  next
    assume "round_half_even x = f + 1 \<and> 1 / 2 \<le> x - of_int f"
    then show ?thesis by simp
  qed
qed

lemma round64_le_one_finite:
  assumes "0 < q" and "q \<le> 1"
  shows "is_finite (round64 q)"
proof -
  define u where "u = pow2 (max (ilog2 q) (- 1022) - 52)"
  define r where "r = of_int (round_half_even (q / u)) * u"
  have u0: "0 < u" by (simp add: u_def pow2_pos)
  have "pow2 (ilog2 q) \<le> 1" using ilog2_lower [OF assms(1)] assms(2) by linarith
  moreover have "(1::rat) < pow2 1" by (simp add: pow2_def)
  ultimately have "pow2 (ilog2 q) < pow2 1" by linarith
  then have "ilog2 q < 1" by (rule pow2_less_imp)
  then have "pow2 (max (ilog2 q) (- 1022) - 52) \<le> pow2 0" by (intro pow2_mono) simp
  then have u1: "u \<le> 1" by (simp add: u_def pow2_def)
  have "r \<le> (q / u + 1 / 2) * u"
    unfolding r_def using round_half_even_upper [of "q / u"] u0
    by (intro mult_right_mono) simp_all
  also have "\<dots> = q + u / 2" using u0 by (simp add: field_simps)
  also have "\<dots> \<le> 2" using assms(2) u1 by simp
  finally have "r \<le> 2" .
  moreover have "(2::rat) < 2 ^ 1024" by simp
  ultimately have "\<not> 2 ^ 1024 \<le> r" by linarith
  then show ?thesis
    using assms(1) unfolding round64_def Let_def
    by (simp add: u_def [symmetric] r_def [symmetric] abs_of_pos)
qed

lemma fdiv_le_one_finite:
  assumes "is_finite t" and "flt (Fin 0) t" and "fle (Fin 0) a" and "fle a t"
  shows "is_finite (fdiv a t)"
proof -
  obtain b where b: "t = Fin b" "0 < b" using flt_zero_finite [OF assms(1,2)] by blast
  consider "a = NegZero" | c where "a = Fin c" "0 \<le> c" "c \<le> b"
    using assms(3,4) b by (cases a) (simp_all add: fle_def)
  then show ?thesis
  proof cases
    case 1
    then show ?thesis using b by (simp add: fdiv_def)
  next
    case 2
    show ?thesis
    proof (cases "c = 0")
      case True
      then show ?thesis using 2 b by (simp add: fdiv_def)
    next
      case False
      then have "is_finite (round64 (c / b))"
        using 2(2,3) b(2) by (intro round64_le_one_finite) simp_all
      then show ?thesis using 2 b False by (simp add: fdiv_def)
    qed
  qed
qed

text \<open>
  C3, as amended. In every record of the result the utilization is the float64
  quotient \<open>alloc / total\<close>; it is not finite when the total is zero; it is at least 0
  when the total is finite and positive and alloc is at least 0; and it is finite when
  moreover alloc is at most the total.
\<close>

theorem utilization_properties:
  assumes "metrics_loop totals allocs keys k = Some r"
  shows "utilization r = fdiv (alloc r) (total r) \<and>
         (is_zero (total r) \<longrightarrow> \<not> is_finite (utilization r)) \<and>
         (is_finite (total r) \<and> flt (Fin 0) (total r) \<and> fle (Fin 0) (alloc r) \<longrightarrow>
            fle (Fin 0) (utilization r)) \<and>
         (is_finite (total r) \<and> flt (Fin 0) (total r) \<and> fle (Fin 0) (alloc r) \<and>
          fle (alloc r) (total r) \<longrightarrow> is_finite (utilization r))"
proof -
  have u: "utilization r = fdiv (alloc r) (total r)"
    using assms by (auto simp add: metrics_loop_key split: if_splits)
  show ?thesis
    unfolding u using fdiv_by_zero fdiv_nonneg fdiv_le_one_finite by blast
qed

theorem utilization_properties_witness:
  "metrics_loop [''a100'' \<mapsto> Fin 4] [''a100'' \<mapsto> Fin 2] [''a100''] ''a100'' =
     Some \<lparr>alloc = Fin 2, idle = Fin 2, total = Fin 4, utilization = Fin (1 / 2)\<rparr> \<and>
   is_finite (Fin 4) \<and> flt (Fin 0) (Fin 4) \<and> fle (Fin 0) (Fin 2) \<and> fle (Fin 2) (Fin 4) \<and>
   fle (Fin 0) (Fin (1 / 2)) \<and> is_finite (Fin (1 / 2)) \<and>
   metrics_loop [''a100'' \<mapsto> Fin 0] Map.empty [''a100''] ''a100'' =
     Some \<lparr>alloc = Fin 0, idle = Fin 0, total = Fin 0, utilization = NaN\<rparr> \<and>
   is_zero (Fin 0) \<and> \<not> is_finite NaN"
proof -
  have sub: "fsub (Fin 4) (Fin 2) = Fin 2"
    by (simp add: fsub_def fadd_def round64_2)
  have quot: "fdiv (Fin 2) (Fin 4) = Fin (1 / 2)"
    by (simp add: fdiv_def round64_half)
  have 1: "metrics_loop [''a100'' \<mapsto> Fin 4] [''a100'' \<mapsto> Fin 2] [''a100''] ''a100'' =
     Some \<lparr>alloc = Fin 2, idle = Fin 2, total = Fin 4, utilization = Fin (1 / 2)\<rparr>"
    by (simp add: metrics_loop_key lookup_def sub quot)
  have 2: "metrics_loop [''a100'' \<mapsto> Fin 0] Map.empty [''a100''] ''a100'' =
     Some \<lparr>alloc = Fin 0, idle = Fin 0, total = Fin 0, utilization = NaN\<rparr>"
    by (simp add: metrics_loop_key lookup_def fsub_def fadd_def fdiv_def)
  have h: "is_finite (Fin 4)" "flt (Fin 0) (Fin 4)" "fle (Fin 0) (Fin 2)" "fle (Fin 2) (Fin 4)"
    "is_zero (Fin 0)"
    by (simp_all add: flt_def fle_def)
  have "fle (Fin 0) (Fin (1 / 2)) \<and> is_finite (Fin (1 / 2))"
    using utilization_properties [OF 1] h by (simp add: quot)
  moreover have "\<not> is_finite NaN"
    using utilization_properties [OF 2] h by simp
  ultimately show ?thesis using 1 2 h by blast
qed

text \<open>
  C3, as the spec states it, fails in two ways. With the count \<open>-1\<close> in the output of
  \<open>squeue\<close> the total is positive and the utilization is negative; with the count \<open>inf\<close>
  the total is positive, not zero, and the utilization is infinite.
\<close>

theorem utilization_properties_counterexample:
  "ParseGPUsMetrics [''a100''] ''node01 gpu:a100:4(S:0)'' ''gres/gpu:a100=-1'' =
     Some [''a100'' \<mapsto>
       \<lparr>alloc = Fin (- 1), idle = Fin 5, total = Fin 4, utilization = Fin (- (1 / 4))\<rparr>] \<and>
   flt (Fin 0) (Fin 4) \<and> \<not> fle (Fin 0) (Fin (- (1 / 4))) \<and>
   ParseGPUsMetrics [''a100''] ''node01 gpu:a100:4(S:0)'' ''gres/gpu:a100=inf'' =
     Some [''a100'' \<mapsto> \<lparr>alloc = PInf, idle = NInf, total = Fin 4, utilization = PInf\<rparr>] \<and>
   \<not> is_finite PInf \<and> \<not> is_zero (Fin 4)"
proof -
  have "fsub (Fin 4) (Fin (- 1)) = Fin 5"
    by (simp add: fsub_def fadd_def round64_5)
  moreover have "fdiv (Fin (- 1)) (Fin 4) = Fin (- (1 / 4))"
    by (simp add: fdiv_def round64_minus_quarter)
  ultimately have 1:
    "metrics_loop [''a100'' \<mapsto> Fin 4] [''a100'' \<mapsto> Fin (- 1)] [''a100''] =
       [''a100'' \<mapsto>
         \<lparr>alloc = Fin (- 1), idle = Fin 5, total = Fin 4, utilization = Fin (- (1 / 4))\<rparr>]"
    by (auto simp add: metrics_loop_key lookup_def fun_eq_iff)
  have "fsub (Fin 4) PInf = NInf"
    by (simp add: fsub_def fadd_def)
  moreover have "fdiv PInf (Fin 4) = PInf"
    by (simp add: fdiv_def)
  ultimately have 2:
    "metrics_loop [''a100'' \<mapsto> Fin 4] [''a100'' \<mapsto> PInf] [''a100''] =
       [''a100'' \<mapsto> \<lparr>alloc = PInf, idle = NInf, total = Fin 4, utilization = PInf\<rparr>]"
    by (auto simp add: metrics_loop_key lookup_def fun_eq_iff)
  show ?thesis
    by (simp add: ParseGPUsMetrics_def sinfo_sample squeue_negative squeue_inf 1 2
        flt_def fle_def)
qed

section \<open>The inventory accumulates\<close>

lemma accumulate_Nil: "accumulate v [] = v"
  by (simp add: accumulate_def)

lemma accumulate_append: "accumulate v (cs @ ds) = accumulate (accumulate v cs) ds"
  by (simp add: accumulate_def)

lemma accumulate_Some: "accumulate (Some x) cs = Some (foldl fadd x cs)"
  by (induction cs arbitrary: x) (simp_all add: accumulate_def)

lemma accumulate_None:
  "accumulate None cs = (if cs = [] then None else Some (foldl fadd (Fin 0) cs))"
proof (cases cs)
  case Nil
  then show ?thesis by (simp add: accumulate_def)
next
  case (Cons c ds)
  have "accumulate None (c # ds) = accumulate (Some (fadd (Fin 0) c)) ds"
    by (simp add: accumulate_def)
  then show ?thesis using Cons by (simp add: accumulate_Some)
qed

lemma total_resource_accumulates:
  assumes "total_resource s resource = Some s'"
  shows "s' gpu_type = accumulate (s gpu_type) (gpu_contribution gpu_type resource)"
proof (cases "HasPrefix resource ''gpu:''")
  case True
  let ?segs = "Split resource (CHR '':'')"
  let ?count = "fst (ParseFloat (Split (?segs ! 2) (CHR ''('') ! 0))"
  have len: "2 < length ?segs"
    using assms True by (simp add: total_resource_def Let_def split: if_splits)
  have s': "s' = s(?segs ! 1 \<mapsto> fadd (lookup s (?segs ! 1)) ?count)"
    using assms True len by (simp add: total_resource_def Let_def)
  show ?thesis
    using True len
    by (simp add: s' gpu_contribution_def accumulate_def lookup_def)
next
  case False
  then show ?thesis
    using assms by (simp add: total_resource_def gpu_contribution_def accumulate_def)
qed

lemma resources_accumulate:
  "range_loop total_resource s rs = Some s' \<Longrightarrow>
     s' gpu_type = accumulate (s gpu_type) (concat (map (gpu_contribution gpu_type) rs))"
proof (induction rs arbitrary: s)
  case Nil
  then show ?case by (simp add: accumulate_Nil)
next
  case (Cons r rs)
  from Cons.prems obtain s1 where s1: "total_resource s r = Some s1"
    and rest: "range_loop total_resource s1 rs = Some s'"
    by (auto split: option.splits)
  show ?case
    using Cons.IH [OF rest] total_resource_accumulates [OF s1, of gpu_type]
    by (simp add: accumulate_append)
qed

lemma total_line_accumulates:
  assumes "total_line s line = Some s'"
  shows "s' gpu_type = accumulate (s gpu_type) (node_contributions gpu_type line)"
proof (cases "line = []")
  case True
  then show ?thesis
    using assms by (simp add: total_line_def node_contributions_def accumulate_Nil)
next
  case False
  have len: "\<not> length (Fields (Trim line (CHR 0x22))) \<le> 1"
    using assms False by (simp add: total_line_def Let_def split: if_splits)
  then have "range_loop total_resource s
      (Split (Fields (Trim line (CHR 0x22)) ! 1) (CHR '','')) = Some s'"
    using assms False by (simp add: total_line_def Let_def)
  then show ?thesis
    using False len resources_accumulate by (simp add: node_contributions_def)
qed

lemma lines_accumulate:
  "range_loop total_line s ls = Some s' \<Longrightarrow>
     s' gpu_type = accumulate (s gpu_type) (concat (map (node_contributions gpu_type) ls))"
proof (induction ls arbitrary: s)
  case Nil
  then show ?case by (simp add: accumulate_Nil)
next
  case (Cons l ls)
  from Cons.prems obtain s1 where s1: "total_line s l = Some s1"
    and rest: "range_loop total_line s1 ls = Some s'"
    by (auto split: option.splits)
  show ?case
    using Cons.IH [OF rest] total_line_accumulates [OF s1, of gpu_type]
    by (simp add: accumulate_append)
qed

text \<open>
  C6. The inventory parser sums the contributions to a type over the lines: when it
  returns, a type with no contribution has no entry, and the entry of any other type is
  the float64 sum of its contributions, added in the order of the text to 0. Two nodes
  with \<open>gpu:v100:2(...)\<close> give \<open>v100\<close> the value 4, as the instance after the theorem
  shows.
\<close>

theorem inventory_accumulates:
  assumes "ParseTotalGPUs output = Some m"
  shows "m gpu_type =
           (if inventory_contributions gpu_type output = [] then None
            else Some (foldl fadd (Fin 0) (inventory_contributions gpu_type output)))"
proof (cases "output = []")
  case True
  then show ?thesis
    using assms
    by (auto simp add: ParseTotalGPUs_def inventory_contributions_def Split_def
        node_contributions_def)
next
  case False
  then have "range_loop total_line Map.empty (Split output (CHR 0x0A)) = Some m"
    using assms by (simp add: ParseTotalGPUs_def)
  then have "m gpu_type = accumulate None (inventory_contributions gpu_type output)"
    using lines_accumulate [of Map.empty "Split output (CHR 0x0A)" m gpu_type]
    by (simp add: inventory_contributions_def)
  then show ?thesis by (simp only: accumulate_None)
qed

lemma sinfo_two_nodes:
  "ParseTotalGPUs ''node01 gpu:v100:2(S:0)\<newline>node02 gpu:v100:2(S:0-1)'' =
     Some [''v100'' \<mapsto> Fin 4]"
  by (simp add: parser_eval ParseFloat_2 round64_2 round64_4)

theorem inventory_accumulates_witness:
  "ParseTotalGPUs ''node01 gpu:v100:2(S:0)\<newline>node02 gpu:v100:2(S:0-1)'' =
     Some [''v100'' \<mapsto> Fin 4] \<and>
   inventory_contributions ''v100'' ''node01 gpu:v100:2(S:0)\<newline>node02 gpu:v100:2(S:0-1)'' =
     [Fin 2, Fin 2] \<and>
   [''v100'' \<mapsto> Fin 4] ''v100'' = Some (foldl fadd (Fin 0) [Fin 2, Fin 2]) \<and>
   foldl fadd (Fin 0) [Fin 2, Fin 2] = Fin 4"
proof -
  have c: "inventory_contributions ''v100''
      ''node01 gpu:v100:2(S:0)\<newline>node02 gpu:v100:2(S:0-1)'' = [Fin 2, Fin 2]"
    by (simp add: inventory_contributions_def node_contributions_def gpu_contribution_def
        Split_def Trim_def Fields_def HasPrefix_def ParseFloat_2)
  have "[''v100'' \<mapsto> Fin 4] ''v100'' = Some (foldl fadd (Fin 0) [Fin 2, Fin 2])"
    using inventory_accumulates [OF sinfo_two_nodes, of "''v100''"] by (simp add: c)
  moreover have "foldl fadd (Fin 0) [Fin 2, Fin 2] = Fin 4"
    by (simp add: fadd_def round64_2 round64_4)
  ultimately show ?thesis using sinfo_two_nodes c by blast
qed

end
